theory Spec2Isabelle
  imports Main "HOL-Library.Word"
begin

section \<open>Byte buffers and the primitive readers\<close>

text \<open>
  The decoders of \<^verbatim>\<open>src/index.ts\<close> work on a Node \<^verbatim>\<open>Buffer\<close>: a byte array of a
  fixed length. JavaScript numbers that hold offsets, lengths and unsigned 32-bit fields
  are modelled as \<open>nat\<close> (all of them stay far below \<open>2 ^ 53\<close>), signed ones and bigints
  as \<open>int\<close>.
\<close>

type_synonym byte = "8 word"
type_synonym Buffer = "byte list"

text \<open>
  The fixed-width readers throw a \<^verbatim>\<open>RangeError\<close> when the read would pass the end of the
  buffer; the value carried here is the offset that was given to the reader.
\<close>

datatype error = RangeError nat

text \<open>Sequencing of computations that may throw: the first error aborts the rest.\<close>

definition thenE :: "error + 'a \<Rightarrow> ('a \<Rightarrow> error + 'b) \<Rightarrow> error + 'b" where
  "thenE m f = (case m of Inl e \<Rightarrow> Inl e | Inr x \<Rightarrow> f x)"

text \<open>
  \<^verbatim>\<open>data.slice(start, end)\<close> with \<open>0 \<le> start\<close>: both ends are clamped to the length of
  the buffer, and an end before the start gives the empty buffer. Nothing is thrown.
\<close>

definition slice :: "Buffer \<Rightarrow> nat \<Rightarrow> nat \<Rightarrow> Buffer" where
  "slice data start end = take (end - start) (drop start data)"

text \<open>\<^verbatim>\<open>data[i]\<close>: the byte at \<open>i\<close>, or \<^verbatim>\<open>undefined\<close> (here \<open>None\<close>) outside the buffer.\<close>

definition at :: "Buffer \<Rightarrow> nat \<Rightarrow> nat option" where
  "at data i = (if i < length data then Some (unat (data ! i)) else None)"

text \<open>The value of a byte sequence read in little-endian order.\<close>

fun le_value :: "byte list \<Rightarrow> nat" where
  "le_value [] = 0"
| "le_value (b # bs) = unat b + 256 * le_value bs"

definition readUInt32LE :: "Buffer \<Rightarrow> nat \<Rightarrow> error + nat" where
  "readUInt32LE data offset =
     (if offset + 4 \<le> length data then Inr (le_value (slice data offset (offset + 4)))
      else Inl (RangeError offset))"

definition readInt32LE :: "Buffer \<Rightarrow> nat \<Rightarrow> error + int" where
  "readInt32LE data offset =
     (if offset + 4 \<le> length data then
        (let u = le_value (slice data offset (offset + 4))
         in Inr (if u < 2 ^ 31 then int u else int u - 2 ^ 32))
      else Inl (RangeError offset))"

text \<open>
  Modelled from the spec: the 64-bit readers \<^verbatim>\<open>readBigInt64LE\<close> and \<^verbatim>\<open>readBigUInt64LE\<close> are
  imported from \<^verbatim>\<open>./readBig\<close>, which is not among the sources. The spec (4.1, Primitive
  Readers) has them read a fixed-width little-endian integer at a byte offset, signed or
  unsigned, and fail with an out-of-range condition when the read would extend past the
  end of the buffer.
\<close>

definition readBigUInt64LE :: "Buffer \<Rightarrow> nat \<Rightarrow> error + nat" where
  "readBigUInt64LE data offset =
     (if offset + 8 \<le> length data then Inr (le_value (slice data offset (offset + 8)))
      else Inl (RangeError offset))"

definition readBigInt64LE :: "Buffer \<Rightarrow> nat \<Rightarrow> error + int" where
  "readBigInt64LE data offset =
     (if offset + 8 \<le> length data then
        (let u = le_value (slice data offset (offset + 8))
         in Inr (if u < 2 ^ 63 then int u else int u - 2 ^ 64))
      else Inl (RangeError offset))"

section \<open>Identifiers\<close>

text \<open>
  \<^verbatim>\<open>new PublicKey(bytes)\<close> belongs to \<^verbatim>\<open>@solana/web3.js\<close>. It accepts any buffer of at most
  32 bytes, and every buffer it is given here is a slice of at most 32 bytes, so the
  constructor is total in this program. The key is kept as the bytes it was built from.
\<close>

datatype PublicKey = PublicKey Buffer

definition empty32Buffer :: Buffer where
  "empty32Buffer = replicate 32 0"

text \<open>\<^verbatim>\<open>data.equals(empty32Buffer)\<close> compares lengths and bytes; \<^verbatim>\<open>null\<close> is \<open>None\<close>.\<close>

definition PKorNull :: "Buffer \<Rightarrow> PublicKey option" where
  "PKorNull data = (if data = empty32Buffer then None else Some (PublicKey data))"

section \<open>Records\<close>

record Base =
  magic :: nat
  version :: nat
  type :: nat
  size :: nat

record MappingData = Base +
  nextMappingAccount :: "PublicKey option"
  productAccountKeys :: "PublicKey list"

section \<open>The mapping decoder\<close>

text \<open>The \<^verbatim>\<open>for\<close> loop of \<^verbatim>\<open>parseMappingData\<close>, with its variables \<open>i\<close>, \<open>offset\<close> and the list.\<close>

function mapping_loop :: "Buffer \<Rightarrow> nat \<Rightarrow> nat \<Rightarrow> nat \<Rightarrow> PublicKey list \<Rightarrow> PublicKey list" where
  "mapping_loop data numProducts i offset keys =
     (if i < numProducts then
        (let productAccountBytes = slice data offset (offset + 32);
             productAccountKey = PublicKey productAccountBytes
         in mapping_loop data numProducts (i + 1) (offset + 32) (keys @ [productAccountKey]))
      else keys)"
  by pat_completeness auto
termination
  by (relation "measure (\<lambda>(data, numProducts, i, offset, keys). numProducts - i)") auto

declare mapping_loop.simps [simp del]

definition parseMappingData :: "Buffer \<Rightarrow> error + MappingData" where
  "parseMappingData data =
     thenE (readUInt32LE data 0) (\<lambda>magic.
     thenE (readUInt32LE data 4) (\<lambda>version.
     thenE (readUInt32LE data 8) (\<lambda>type.
     thenE (readUInt32LE data 12) (\<lambda>size.
     thenE (readUInt32LE data 16) (\<lambda>numProducts.
       let nextMappingAccount = PKorNull (slice data 24 56);
           productAccountKeys = mapping_loop data numProducts 0 56 []
       in Inr \<lparr> magic = magic, version = version, type = type, size = size,
                nextMappingAccount = nextMappingAccount,
                productAccountKeys = productAccountKeys \<rparr>)))))"

section \<open>The product decoder\<close>

text \<open>
  The loop variable \<^verbatim>\<open>idx\<close> is a JavaScript number. Adding the \<^verbatim>\<open>undefined\<close> that an
  out-of-range \<^verbatim>\<open>data[idx]\<close> returns makes it \<^verbatim>\<open>NaN\<close>, and \<^verbatim>\<open>NaN < size\<close> is false.
\<close>

datatype jsnum = Num nat | NaN

text \<open>
  A log of what the metadata loop asks of the buffer, in order. It is not a variable of
  the source; it records each \<^verbatim>\<open>data[idx]\<close> by its offset and each \<^verbatim>\<open>data.slice(a, b)\<close> by
  its two ends.
\<close>

datatype access =
    KeyLength nat
  | KeyBytes nat nat
  | ValueLength nat
  | ValueBytes nat nat

text \<open>The byte offsets of the buffer that an access really touches.\<close>

fun touched :: "Buffer \<Rightarrow> access \<Rightarrow> nat set" where
  "touched data (KeyLength i) = {j. j = i \<and> j < length data}"
| "touched data (KeyBytes a b) = {j. a \<le> j \<and> j < b \<and> j < length data}"
| "touched data (ValueLength i) = {j. j = i \<and> j < length data}"
| "touched data (ValueBytes a b) = {j. a \<le> j \<and> j < b \<and> j < length data}"

text \<open>
  The metadata object \<^verbatim>\<open>product\<close> is created by \<^verbatim>\<open>{}\<close>, so it inherits from
  \<^verbatim>\<open>Object.prototype\<close>. Its own properties are a map from strings to strings. The
  assignment \<^verbatim>\<open>product[key] = value\<close> creates or overwrites the own property \<^verbatim>\<open>key\<close>,
  with one exception: for the key \<^verbatim>\<open>__proto__\<close> it reaches the setter that the object
  inherits, and that setter ignores a value that is a string, so nothing is stored.
  \<open>proto\<close> stands for the string \<^verbatim>\<open>__proto__\<close>.
\<close>

definition assign_property :: "'s \<Rightarrow> ('s \<rightharpoonup> 's) \<Rightarrow> 's \<Rightarrow> 's \<Rightarrow> ('s \<rightharpoonup> 's)" where
  "assign_property proto product key value =
     (if key = proto then product else product(key \<mapsto> value))"

text \<open>
  One run of the body of the \<^verbatim>\<open>while\<close> loop of \<^verbatim>\<open>parseProductData\<close>, entered with
  \<^verbatim>\<open>idx\<close> a number. \<^verbatim>\<open>toString\<close> is the buffer's own decoding of bytes to a string.

  When the value-length byte lies outside the buffer, \<^verbatim>\<open>valueLength\<close> is \<^verbatim>\<open>undefined\<close>:
  the end of the value slice is \<^verbatim>\<open>NaN\<close>, which \<^verbatim>\<open>slice\<close> takes as 0, so the value is the
  string of the empty buffer, and \<^verbatim>\<open>idx\<close> becomes \<^verbatim>\<open>NaN\<close>.
\<close>

definition product_body ::
  "(Buffer \<Rightarrow> 's) \<Rightarrow> 's \<Rightarrow> Buffer \<Rightarrow> nat \<Rightarrow> ('s \<rightharpoonup> 's)
     \<Rightarrow> jsnum \<times> ('s \<rightharpoonup> 's) \<times> access list" where
  "product_body toString proto data idx product =
     (case at data idx of
        None \<Rightarrow> (Num (idx + 1), product, [KeyLength idx])
      | Some keyLength \<Rightarrow>
          if keyLength \<noteq> 0 then
            (let key = toString (slice data (idx + 1) (idx + 1 + keyLength));
                 idx2 = idx + 1 + keyLength
             in case at data idx2 of
                  None \<Rightarrow>
                    (NaN, assign_property proto product key (toString []),
                     [KeyLength idx, KeyBytes (idx + 1) idx2, ValueLength idx2])
                | Some valueLength \<Rightarrow>
                    (let value = toString (slice data (idx2 + 1) (idx2 + 1 + valueLength))
                     in (Num (idx2 + 1 + valueLength), assign_property proto product key value,
                         [KeyLength idx, KeyBytes (idx + 1) idx2, ValueLength idx2,
                          ValueBytes (idx2 + 1) (idx2 + 1 + valueLength)])))
          else (Num (idx + 1), product, [KeyLength idx]))"

function product_loop ::
  "(Buffer \<Rightarrow> 's) \<Rightarrow> 's \<Rightarrow> Buffer \<Rightarrow> nat \<Rightarrow> jsnum \<Rightarrow> ('s \<rightharpoonup> 's) \<Rightarrow> access list
     \<Rightarrow> jsnum \<times> ('s \<rightharpoonup> 's) \<times> access list" where
  "product_loop toString proto data size' (Num idx) product log =
     (if idx < size' then
        (case product_body toString proto data idx product of
           (idx', product', accesses) \<Rightarrow>
             product_loop toString proto data size' idx' product' (log @ accesses))
      else (Num idx, product, log))"
| "product_loop toString proto data size' NaN product log = (NaN, product, log)"
  by pat_completeness auto
termination
  by (relation "measure (\<lambda>(toString, proto, data, size', idx, product, log).
                  case idx of Num i \<Rightarrow> Suc (size' - i) | NaN \<Rightarrow> 0)")
     (auto simp: product_body_def Let_def split: option.splits if_splits jsnum.splits)

declare product_loop.simps [simp del]

record 's ProductData = Base +
  priceAccountKey :: PublicKey
  product :: "'s \<rightharpoonup> 's"

definition parseProductData ::
  "(Buffer \<Rightarrow> 's) \<Rightarrow> 's \<Rightarrow> Buffer \<Rightarrow> error + 's ProductData" where
  "parseProductData toString proto data =
     thenE (readUInt32LE data 0) (\<lambda>magic.
     thenE (readUInt32LE data 4) (\<lambda>version.
     thenE (readUInt32LE data 8) (\<lambda>type.
     thenE (readUInt32LE data 12) (\<lambda>size.
       let priceAccountBytes = slice data 16 48;
           priceAccountKey = PublicKey priceAccountBytes
       in case product_loop toString proto data size (Num 48) Map.empty [] of
            (idx', product', log') \<Rightarrow>
              Inr \<lparr> magic = magic, version = version, type = type, size = size,
                    priceAccountKey = priceAccountKey, product = product' \<rparr>))))"

section \<open>The price decoder\<close>

text \<open>
  The scaled values are doubles, \<^verbatim>\<open>Number(mantissa) * 10 ** exponent\<close>. Floating-point
  arithmetic is kept symbolic: \<open>Scaled m e\<close> stands for the double that this expression
  gives for the mantissa \<open>m\<close> and the exponent \<open>e\<close>.
\<close>

datatype double = Scaled int int

record Price =
  priceComponent :: int
  price :: double
  confidenceComponent :: nat
  confidence :: double
  status :: nat
  corporateAction :: nat
  publishSlot :: nat

definition parsePriceInfo :: "Buffer \<Rightarrow> int \<Rightarrow> error + Price" where
  "parsePriceInfo data exponent =
     thenE (readBigInt64LE data 0) (\<lambda>priceComponent.
       let price = Scaled priceComponent exponent in
     thenE (readBigUInt64LE data 8) (\<lambda>confidenceComponent.
       let confidence = Scaled (int confidenceComponent) exponent in
     thenE (readUInt32LE data 16) (\<lambda>status.
     thenE (readUInt32LE data 20) (\<lambda>corporateAction.
     thenE (readBigUInt64LE data 24) (\<lambda>publishSlot.
       Inr \<lparr> priceComponent = priceComponent, price = price,
             confidenceComponent = confidenceComponent, confidence = confidence,
             status = status, corporateAction = corporateAction,
             publishSlot = publishSlot \<rparr>)))))"

record PriceComponent =
  publisher :: "PublicKey option"
  aggregate :: Price
  latest :: Price

text \<open>
  The \<^verbatim>\<open>while\<close> loop of \<^verbatim>\<open>parsePriceData\<close>, with its variables \<^verbatim>\<open>offset\<close>,
  \<^verbatim>\<open>shouldContinue\<close> and the list. A \<^verbatim>\<open>PublicKey\<close> object is truthy, \<^verbatim>\<open>null\<close> is not.
\<close>

function price_loop ::
  "Buffer \<Rightarrow> int \<Rightarrow> nat \<Rightarrow> bool \<Rightarrow> PriceComponent list \<Rightarrow> error + PriceComponent list" where
  "price_loop data exponent offset shouldContinue priceComponents =
     (if offset < length data \<and> shouldContinue then
        (let publisher = PKorNull (slice data offset (offset + 32));
             offset1 = offset + 32
         in if publisher \<noteq> None then
              thenE (parsePriceInfo (slice data offset1 (offset1 + 32)) exponent) (\<lambda>aggregate.
                let offset2 = offset1 + 32 in
              thenE (parsePriceInfo (slice data offset2 (offset2 + 32)) exponent) (\<lambda>latest.
                let offset3 = offset2 + 32 in
                price_loop data exponent offset3 shouldContinue
                  (priceComponents @
                    [\<lparr> publisher = publisher, aggregate = aggregate, latest = latest \<rparr>])))
            else price_loop data exponent offset1 False priceComponents)
      else Inr priceComponents)"
  by pat_completeness auto
termination
  by (relation "measure (\<lambda>(data, exponent, offset, shouldContinue, priceComponents).
                  length data - offset)") auto

declare price_loop.simps [simp del]

record PriceData = Base +
  priceType :: nat
  exponent :: int
  numComponentPrices :: nat
  currentSlot :: nat
  validSlot :: nat
  productAccountKey :: PublicKey
  nextPriceAccountKey :: "PublicKey option"
  aggregatePriceUpdaterAccountKey :: PublicKey
  priceComponent :: int
  price :: double
  confidenceComponent :: nat
  confidence :: double
  status :: nat
  corporateAction :: nat
  publishSlot :: nat
  priceComponents :: "PriceComponent list"

definition parsePriceData :: "Buffer \<Rightarrow> error + PriceData" where
  "parsePriceData data =
     thenE (readUInt32LE data 0) (\<lambda>magic.
     thenE (readUInt32LE data 4) (\<lambda>version.
     thenE (readUInt32LE data 8) (\<lambda>type.
     thenE (readUInt32LE data 12) (\<lambda>size.
     thenE (readUInt32LE data 16) (\<lambda>priceType.
     thenE (readInt32LE data 20) (\<lambda>exponent.
     thenE (readUInt32LE data 24) (\<lambda>numComponentPrices.
     thenE (readBigUInt64LE data 32) (\<lambda>currentSlot.
     thenE (readBigUInt64LE data 40) (\<lambda>validSlot.
       let productAccountKey = PublicKey (slice data 48 80);
           nextPriceAccountKey = PKorNull (slice data 80 112);
           aggregatePriceUpdaterAccountKey = PublicKey (slice data 112 144)
       in
     thenE (parsePriceInfo (slice data 144 176) exponent) (\<lambda>aggregatePriceInfo.
     thenE (price_loop data exponent 176 True []) (\<lambda>priceComponents.
       Inr \<lparr> magic = magic, version = version, type = type, size = size,
             priceType = priceType, exponent = exponent,
             numComponentPrices = numComponentPrices,
             currentSlot = currentSlot, validSlot = validSlot,
             productAccountKey = productAccountKey,
             nextPriceAccountKey = nextPriceAccountKey,
             aggregatePriceUpdaterAccountKey = aggregatePriceUpdaterAccountKey,
             priceComponent = Price.priceComponent aggregatePriceInfo,
             price = Price.price aggregatePriceInfo,
             confidenceComponent = Price.confidenceComponent aggregatePriceInfo,
             confidence = Price.confidence aggregatePriceInfo,
             status = Price.status aggregatePriceInfo,
             corporateAction = Price.corporateAction aggregatePriceInfo,
             publishSlot = Price.publishSlot aggregatePriceInfo,
             priceComponents = priceComponents \<rparr>)))))))))))"

section \<open>The exported constants\<close>

definition Magic :: nat where
  "Magic = 0xa1b2c3d4"

definition Version1 :: nat where
  "Version1 = 1"

definition Version :: nat where
  "Version = Version1"

definition PriceStatus :: "string list" where
  "PriceStatus = [''Unknown'', ''Trading'', ''Halted'', ''Auction'']"

definition CorpAction :: "string list" where
  "CorpAction = [''NoCorpAct'']"

definition PriceType :: "string list" where
  "PriceType = [''Unknown'', ''Price'', ''TWAP'', ''Volatility'']"

section \<open>The component region as the specification describes it\<close>

text \<open>
  The specification describes the component list of a price account as the consecutive
  96-byte triples from offset 176 on, up to but not including the first one whose 32-byte
  publisher span is all zero, or up to the end of the buffer. \<open>spec_triples\<close> cuts a
  region that way; it is written from that sentence, not from the loop, and is compared
  with \<open>price_loop\<close> below. A last triple may be cut short by the end of the region.
\<close>

function spec_triples :: "Buffer \<Rightarrow> Buffer list" where
  "spec_triples region =
     (if region = [] \<or> take 32 region = empty32Buffer then []
      else take 96 region # spec_triples (drop 96 region))"
  by pat_completeness auto
termination
  by (relation "measure length") auto

declare spec_triples.simps [simp del]

text \<open>The component that a triple stands for: publisher, aggregate and latest Price-Info.\<close>

definition component_of :: "int \<Rightarrow> Buffer \<Rightarrow> error + PriceComponent" where
  "component_of e t =
     thenE (parsePriceInfo (slice t 32 64) e) (\<lambda>a.
     thenE (parsePriceInfo (slice t 64 96) e) (\<lambda>l.
       Inr \<lparr> publisher = PKorNull (slice t 0 32), aggregate = a, latest = l \<rparr>))"

section \<open>Where the metadata loop stands\<close>

text \<open>\<open>from_offset lo j\<close>: the loop variable is \<^verbatim>\<open>NaN\<close> or a number that is at least \<open>lo\<close>.\<close>

definition from_offset :: "nat \<Rightarrow> jsnum \<Rightarrow> bool" where
  "from_offset lo j = (case j of Num i \<Rightarrow> lo \<le> i | NaN \<Rightarrow> True)"

section \<open>Example buffers\<close>

text \<open>
  In the examples a string is written as its bytes: \<^verbatim>\<open>toString\<close> is the identity, which is
  what it is on ASCII bytes, and \<open>proto_key\<close> is the ASCII string \<^verbatim>\<open>__proto__\<close>.
\<close>

definition proto_key :: Buffer where
  "proto_key = [95, 95, 112, 114, 111, 116, 111, 95, 95]"

text \<open>
  A product account with used-size 60 whose only entry starts at offset 48: key length 9,
  the key \<^verbatim>\<open>__proto__\<close> at 49 to 57, value length 1 at 58, the value \<^verbatim>\<open>x\<close> at 59.
\<close>

definition proto_product :: Buffer where
  "proto_product =
     replicate 12 0 @ [60, 0, 0, 0] @ replicate 32 0 @
     [9, 95, 95, 112, 114, 111, 116, 111, 95, 95, 1, 120]"

text \<open>
  A product account with used-size 49 whose only entry starts at offset 48: key length 2,
  the key at 49 and 50, value length 1 at 51, the value at 52.
\<close>

definition overrun_product :: Buffer where
  "overrun_product = replicate 12 0 @ [49, 0, 0, 0] @ replicate 32 0 @ [2, 97, 98, 1, 99]"

text \<open>A Price-Info block with status ordinal 7 and corporate-action ordinal 9.\<close>

definition odd_ordinals :: Buffer where
  "odd_ordinals = replicate 16 0 @ [7, 0, 0, 0] @ [9, 0, 0, 0] @ replicate 8 0"

text \<open>
  A price account of 208 bytes with declared component count 5 and an all-zero publisher
  span at offset 176.
\<close>

definition sentinel_price :: Buffer where
  "sentinel_price = replicate 24 0 @ [5, 0, 0, 0] @ replicate 180 0"

text \<open>
  A price account with one component at offset 176, the all-zero publisher span behind
  it, and three more bytes behind that.
\<close>

definition one_component_price :: Buffer where
  "one_component_price =
     replicate 176 0 @ replicate 32 1 @ replicate 64 0 @ replicate 32 0 @ [1, 2, 3]"

text \<open>A price account of 176 bytes whose magic is \<open>Magic + 1\<close> and whose version is 2.\<close>

definition wrong_header_price :: Buffer where
  "wrong_header_price = [0xd5, 0xc3, 0xb2, 0xa1, 2, 0, 0, 0] @ replicate 168 0"

section \<open>Basic facts\<close>

subsection \<open>Sequencing, slices and bytes\<close>

lemma thenE_Inr [simp]: "thenE (Inr x) f = f x"
  by (simp add: thenE_def)

lemma thenE_Inl [simp]: "thenE (Inl e) f = Inl e"
  by (simp add: thenE_def)

lemma thenE_eq_Inr: "thenE m f = Inr r \<longleftrightarrow> (\<exists>x. m = Inr x \<and> f x = Inr r)"
  by (cases m) simp_all

lemma map_sum_thenE: "map_sum id g (thenE m f) = thenE m (\<lambda>x. map_sum id g (f x))"
  by (cases m) simp_all

lemma Inl_iff_not:
  "(\<And>r. m = Inr r \<Longrightarrow> P) \<Longrightarrow> (P \<Longrightarrow> \<exists>r. m = Inr r) \<Longrightarrow> (\<exists>e. m = Inl e) \<longleftrightarrow> \<not> P"
  by (cases m) auto

lemma length_slice: "length (slice data s e) = min (e - s) (length data - s)"
  by (simp add: slice_def)

lemma at_outside: "length data \<le> i \<Longrightarrow> at data i = None"
  by (simp add: at_def)

lemma le_value_zeros: "le_value (replicate n 0) = 0"
  by (induction n) simp_all

subsection \<open>The readers inside the buffer\<close>

lemma readUInt32LE_ok: "offset + 4 \<le> length data \<Longrightarrow>
    readUInt32LE data offset = Inr (le_value (slice data offset (offset + 4)))"
  by (simp add: readUInt32LE_def)

lemma readInt32LE_ok: "offset + 4 \<le> length data \<Longrightarrow>
    readInt32LE data offset =
      Inr (if le_value (slice data offset (offset + 4)) < 2 ^ 31
           then int (le_value (slice data offset (offset + 4)))
           else int (le_value (slice data offset (offset + 4))) - 2 ^ 32)"
  by (simp add: readInt32LE_def Let_def)

lemma readInt32LE_total: "offset + 4 \<le> length data \<Longrightarrow> \<exists>x. readInt32LE data offset = Inr x"
  by (simp add: readInt32LE_def Let_def)

lemma readBigUInt64LE_ok: "offset + 8 \<le> length data \<Longrightarrow>
    readBigUInt64LE data offset = Inr (le_value (slice data offset (offset + 8)))"
  by (simp add: readBigUInt64LE_def)

lemma readBigInt64LE_ok: "offset + 8 \<le> length data \<Longrightarrow>
    readBigInt64LE data offset =
      Inr (if le_value (slice data offset (offset + 8)) < 2 ^ 63
           then int (le_value (slice data offset (offset + 8)))
           else int (le_value (slice data offset (offset + 8))) - 2 ^ 64)"
  by (simp add: readBigInt64LE_def Let_def)

text \<open>
  The header of the specification's example: the bytes \<^verbatim>\<open>d4 c3 b2 a1\<close> read as the
  magic number, and \<^verbatim>\<open>fe ff ff ff\<close> read as the signed exponent \<open>-2\<close>.
\<close>

lemma readUInt32LE_example:
  "readUInt32LE [0xd4, 0xc3, 0xb2, 0xa1, 1, 0, 0, 0, 3, 0, 0, 0, 84, 0, 0, 0] 0 = Inr Magic \<and>
   readUInt32LE [0xd4, 0xc3, 0xb2, 0xa1, 1, 0, 0, 0, 3, 0, 0, 0, 84, 0, 0, 0] 4 = Inr Version \<and>
   readUInt32LE [0xd4, 0xc3, 0xb2, 0xa1, 1, 0, 0, 0, 3, 0, 0, 0, 84, 0, 0, 0] 8 = Inr 3 \<and>
   readUInt32LE [0xd4, 0xc3, 0xb2, 0xa1, 1, 0, 0, 0, 3, 0, 0, 0, 84, 0, 0, 0] 12 = Inr 84 \<and>
   readUInt32LE [0xd4, 0xc3, 0xb2, 0xa1, 1, 0, 0, 0, 3, 0, 0, 0, 84, 0, 0, 0] 13 =
     Inl (RangeError 13)"
  by (simp add: readUInt32LE_def slice_def Magic_def Version_def Version1_def)

lemma readInt32LE_example: "readInt32LE [0xfe, 0xff, 0xff, 0xff] 0 = Inr (- 2)"
  by (simp add: readInt32LE_def slice_def)

section \<open>Facts about the loops\<close>

subsection \<open>The mapping loop in closed form\<close>

lemma mapping_loop_closed:
  "mapping_loop data n i offset keys =
     keys @ map (\<lambda>k. PublicKey (slice data (offset + 32 * k) (offset + 32 * k + 32))) [0..<n - i]"
proof (induction data n i offset keys rule: mapping_loop.induct)
  case (1 data n i offset keys)
  show ?case
  proof (cases "i < n")
    case True
    then have split: "[0..<n - i] = 0 # map Suc [0..<n - (i + 1)]"
      by (metis Suc_diff_Suc Suc_eq_plus1 map_Suc_upt upt_conv_Cons zero_less_diff)
    show ?thesis
      using True "1.IH" [OF True refl refl]
      by (subst mapping_loop.simps) (simp add: split o_def Let_def add.assoc)
  next
    case False
    then show ?thesis
      by (subst mapping_loop.simps) simp
  qed
qed

lemma parseMappingData_Inr_length: "parseMappingData data = Inr r \<Longrightarrow> 20 \<le> length data"
  by (auto simp: parseMappingData_def thenE_eq_Inr readUInt32LE_def split: if_splits)

lemma parseMappingData_ok: "20 \<le> length data \<Longrightarrow> \<exists>r. parseMappingData data = Inr r"
  by (simp add: parseMappingData_def readUInt32LE_ok Let_def)

subsection \<open>The metadata loop\<close>

lemma assign_property_proto [simp]: "assign_property proto m proto value = m"
  by (simp add: assign_property_def)

lemma assign_property_other [simp]:
  "key \<noteq> proto \<Longrightarrow> assign_property proto m key value = m(key \<mapsto> value)"
  by (simp add: assign_property_def)

text \<open>
  A step of the loop is a run of \<open>product_body\<close>. With key-length byte 0 it moves \<open>idx\<close>
  on by 1 and leaves the metadata; with key-length byte \<open>k > 0\<close> and value-length byte
  \<open>v\<close> it moves \<open>idx\<close> on by \<open>1 + k + 1 + v\<close> and assigns the value to the key.
\<close>

lemma product_body_step:
  "(idx < n \<longrightarrow>
      product_loop toString proto data n (Num idx) m log =
        (case product_body toString proto data idx m of
           (j, m', accesses) \<Rightarrow> product_loop toString proto data n j m' (log @ accesses))) \<and>
   (at data idx = Some 0 \<longrightarrow>
      product_body toString proto data idx m = (Num (idx + 1), m, [KeyLength idx])) \<and>
   (at data idx = Some k \<and> 0 < k \<and> at data (idx + 1 + k) = Some v \<longrightarrow>
      fst (product_body toString proto data idx m) = Num (idx + (1 + k + 1 + v)) \<and>
      fst (snd (product_body toString proto data idx m)) =
        assign_property proto m (toString (slice data (idx + 1) (idx + 1 + k)))
          (toString (slice data (idx + 1 + k + 1) (idx + 1 + k + 1 + v))))"
  by (simp add: product_loop.simps(1) [of _ _ _ _ idx] product_body_def Let_def add.assoc)

lemma product_body_outside:
  "length data \<le> idx \<Longrightarrow> product_body toString proto data idx m = (Num (idx + 1), m, [KeyLength idx])"
  by (simp add: product_body_def at_outside)

lemma product_body_log:
  "product_body toString proto data idx m = (j', m', acc) \<Longrightarrow>
     from_offset (idx + 1) j' \<and> (\<forall>i. KeyLength i \<in> set acc \<longrightarrow> i = idx)"
  by (auto simp: product_body_def from_offset_def Let_def split: option.splits if_splits)

lemma product_loop_past_end:
  "length data \<le> idx \<Longrightarrow> fst (snd (product_loop toString proto data n (Num idx) m log)) = m"
proof (induction "n - idx" arbitrary: idx log)
  case 0
  then show ?case by (subst product_loop.simps) simp
next
  case (Suc d)
  then have "idx < n" by simp
  moreover have "fst (snd (product_loop toString proto data n (Num (idx + 1)) m (log @ [KeyLength idx]))) = m"
    using Suc by (intro Suc.hyps(1)) auto
  ultimately show ?case
    using Suc.prems by (subst product_loop.simps) (simp add: product_body_outside)
qed

lemma product_loop_in_bounds:
  "length data \<le> n \<Longrightarrow>
     fst (snd (product_loop toString proto data n j m log)) =
     fst (snd (product_loop toString proto data (length data) j m log'))"
proof (induction toString proto data n j m log arbitrary: log' rule: product_loop.induct)
  case (1 toString proto data n idx m log)
  show ?case
  proof (cases "idx < length data")
    case True
    then have lt: "idx < n" using "1.prems" by simp
    obtain j' m' acc where b: "product_body toString proto data idx m = (j', m', acc)"
      by (cases "product_body toString proto data idx m") auto
    have "fst (snd (product_loop toString proto data n j' m' (log @ acc))) =
          fst (snd (product_loop toString proto data (length data) j' m' (log' @ acc)))"
      by (rule "1.IH" [OF lt b [symmetric] refl "1.prems"])
    then show ?thesis
      using True lt b
      by (simp add: product_loop.simps(1) [of _ _ _ _ idx])
  next
    case False
    then have "fst (snd (product_loop toString proto data n (Num idx) m log)) = m"
      by (simp add: product_loop_past_end)
    moreover have "fst (snd (product_loop toString proto data (length data) (Num idx) m log')) = m"
      using False by (simp add: product_loop_past_end)
    ultimately show ?thesis by simp
  qed
next
  case (2 toString proto data n m log)
  show ?case by (simp add: product_loop.simps)
qed

lemma product_loop_key_length_reads:
  "product_loop toString proto data n j m log = (j', m', log') \<Longrightarrow> from_offset lo j \<Longrightarrow>
     KeyLength i \<in> set log' \<Longrightarrow> KeyLength i \<in> set log \<or> (lo \<le> i \<and> i < n)"
proof (induction toString proto data n j m log arbitrary: lo rule: product_loop.induct)
  case (1 toString proto data n idx m log)
  show ?case
  proof (cases "idx < n")
    case True
    obtain j1 m1 acc where b: "product_body toString proto data idx m = (j1, m1, acc)"
      by (cases "product_body toString proto data idx m") auto
    from "1.prems"(1) True b
    have run: "product_loop toString proto data n j1 m1 (log @ acc) = (j', m', log')"
      by (simp add: product_loop.simps(1) [of _ _ _ _ idx])
    from product_body_log [OF b]
    have next_from: "from_offset (idx + 1) j1"
      and acc: "\<forall>i. KeyLength i \<in> set acc \<longrightarrow> i = idx"
      by simp_all
    from "1.IH" [OF True b [symmetric] refl run next_from "1.prems"(3)]
    have "KeyLength i \<in> set (log @ acc) \<or> (idx + 1 \<le> i \<and> i < n)" .
    moreover have "lo \<le> idx"
      using "1.prems"(2) by (simp add: from_offset_def)
    ultimately show ?thesis
      using acc True by auto
  next
    case False
    with "1.prems"(1) have "log' = log"
      by (simp add: product_loop.simps(1) [of _ _ _ _ idx])
    with "1.prems"(3) show ?thesis by simp
  qed
next
  case (2 toString proto data n m log)
  then show ?case by (simp add: product_loop.simps)
qed

lemma product_loop_exit:
  "product_loop toString proto data n j m log = (j', m', log') \<Longrightarrow> from_offset n j'"
proof (induction toString proto data n j m log rule: product_loop.induct)
  case (1 toString proto data n idx m log)
  show ?case
  proof (cases "idx < n")
    case True
    obtain j1 m1 acc where b: "product_body toString proto data idx m = (j1, m1, acc)"
      by (cases "product_body toString proto data idx m") auto
    from "1.prems"(1) True b
    have run: "product_loop toString proto data n j1 m1 (log @ acc) = (j', m', log')"
      by (simp add: product_loop.simps(1) [of _ _ _ _ idx])
    from "1.IH" [OF True b [symmetric] refl run] show ?thesis .
  next
    case False
    with "1.prems"(1) have "j' = Num idx"
      by (simp add: product_loop.simps(1) [of _ _ _ _ idx])
    with False show ?thesis by (simp add: from_offset_def)
  qed
next
  case (2 toString proto data n m log)
  then show ?case by (simp add: product_loop.simps from_offset_def)
qed

lemma parseProductData_Inr_length:
  "parseProductData toString proto data = Inr r \<Longrightarrow> 16 \<le> length data"
  by (auto simp: parseProductData_def thenE_eq_Inr readUInt32LE_def split: if_splits)

lemma parseProductData_ok: "16 \<le> length data \<Longrightarrow> \<exists>r. parseProductData toString proto data = Inr r"
  by (simp add: parseProductData_def readUInt32LE_ok Let_def split: prod.splits)

lemma overrun_at:
  "at overrun_product 48 = Some 2" "at overrun_product 51 = Some 1"
  by (simp_all add: at_def overrun_product_def nth_append)

subsection \<open>Price-Info blocks\<close>

lemma PKorNull_None_iff: "PKorNull d = None \<longleftrightarrow> d = empty32Buffer"
  by (simp add: PKorNull_def)

lemma parsePriceInfo_ok:
  "32 \<le> length data \<Longrightarrow>
     parsePriceInfo data e =
       Inr \<lparr> Price.priceComponent =
               (if le_value (slice data 0 8) < 2 ^ 63 then int (le_value (slice data 0 8))
                else int (le_value (slice data 0 8)) - 2 ^ 64),
             Price.price =
               Scaled (if le_value (slice data 0 8) < 2 ^ 63 then int (le_value (slice data 0 8))
                       else int (le_value (slice data 0 8)) - 2 ^ 64) e,
             Price.confidenceComponent = le_value (slice data 8 16),
             Price.confidence = Scaled (int (le_value (slice data 8 16))) e,
             Price.status = le_value (slice data 16 20),
             Price.corporateAction = le_value (slice data 20 24),
             Price.publishSlot = le_value (slice data 24 32) \<rparr>"
  by (simp add: parsePriceInfo_def readBigInt64LE_ok readBigUInt64LE_ok readUInt32LE_ok Let_def)

lemma parsePriceInfo_Inr_length: "parsePriceInfo data e = Inr r \<Longrightarrow> 32 \<le> length data"
  by (auto simp: parsePriceInfo_def thenE_eq_Inr Let_def readBigUInt64LE_def split: if_splits)

lemma parsePriceInfo_Inr_iff: "(\<exists>r. parsePriceInfo data e = Inr r) \<longleftrightarrow> 32 \<le> length data"
  using parsePriceInfo_Inr_length parsePriceInfo_ok by blast

subsection \<open>The component loop against the triples of the specification\<close>

lemma slice_of_triple:
  "b \<le> 96 \<Longrightarrow> slice (take 96 (drop off data)) a b = slice data (off + a) (off + b)"
  by (simp add: slice_def drop_take min_def add.commute)

lemma component_of_triple:
  "component_of e (take 96 (drop off data)) =
     thenE (parsePriceInfo (slice data (off + 32) (off + 64)) e) (\<lambda>a.
     thenE (parsePriceInfo (slice data (off + 64) (off + 96)) e) (\<lambda>l.
       Inr \<lparr> publisher = PKorNull (slice data off (off + 32)), aggregate = a, latest = l \<rparr>))"
  using slice_of_triple [of 32 off data 0]
  by (simp add: component_of_def slice_of_triple)

lemma spec_triples_end: "length data \<le> off \<Longrightarrow> spec_triples (drop off data) = []"
  by (subst spec_triples.simps) simp

lemma spec_triples_sentinel:
  "slice data off (off + 32) = empty32Buffer \<Longrightarrow> spec_triples (drop off data) = []"
  by (subst spec_triples.simps) (simp add: slice_def)

lemma spec_triples_present:
  "off < length data \<Longrightarrow> slice data off (off + 32) \<noteq> empty32Buffer \<Longrightarrow>
     spec_triples (drop off data) =
       take 96 (drop off data) # spec_triples (drop (off + 96) data)"
  by (subst spec_triples.simps) (simp add: slice_def add.commute)

lemma price_loop_stop: "price_loop data e off False cs = Inr cs"
  by (subst price_loop.simps) simp

lemma price_loop_end: "length data \<le> off \<Longrightarrow> price_loop data e off sc cs = Inr cs"
  by (subst price_loop.simps) simp

lemma price_loop_sentinel:
  "slice data off (off + 32) = empty32Buffer \<Longrightarrow> price_loop data e off sc cs = Inr cs"
  by (subst price_loop.simps) (simp add: PKorNull_def price_loop_stop)

lemma price_loop_present:
  "off < length data \<Longrightarrow> slice data off (off + 32) \<noteq> empty32Buffer \<Longrightarrow>
     price_loop data e off True cs =
       thenE (parsePriceInfo (slice data (off + 32) (off + 64)) e) (\<lambda>a.
       thenE (parsePriceInfo (slice data (off + 64) (off + 96)) e) (\<lambda>l.
         price_loop data e (off + 96) True
           (cs @ [\<lparr> publisher = PKorNull (slice data off (off + 32)),
                    aggregate = a, latest = l \<rparr>])))"
  by (subst price_loop.simps) (simp add: PKorNull_def Let_def add.assoc)

lemma price_loop_refines:
  "price_loop data e off True cs = Inr res \<Longrightarrow>
     map Inr res = map Inr cs @ map (component_of e) (spec_triples (drop off data)) \<and>
     (\<forall>t\<in>set (spec_triples (drop off data)). length t = 96)"
proof (induction "length data - off" arbitrary: off cs rule: less_induct)
  case less
  show ?case
  proof (cases "off < length data \<and> slice data off (off + 32) \<noteq> empty32Buffer")
    case False
    then have "spec_triples (drop off data) = []"
      using spec_triples_end [of data off] spec_triples_sentinel [of data off] by auto
    moreover from False have "price_loop data e off True cs = Inr cs"
      using price_loop_end [of data off] price_loop_sentinel [of data off] by auto
    ultimately show ?thesis
      using less.prems by simp
  next
    case True
    then have lt: "off < length data" and pres: "slice data off (off + 32) \<noteq> empty32Buffer"
      by simp_all
    from less.prems obtain a l where
      a: "parsePriceInfo (slice data (off + 32) (off + 64)) e = Inr a" and
      l: "parsePriceInfo (slice data (off + 64) (off + 96)) e = Inr l" and
      rest: "price_loop data e (off + 96) True
               (cs @ [\<lparr> publisher = PKorNull (slice data off (off + 32)),
                        aggregate = a, latest = l \<rparr>]) = Inr res"
      by (auto simp: price_loop_present [OF lt pres] thenE_eq_Inr)
    from l have "32 \<le> length (slice data (off + 64) (off + 96))"
      by (rule parsePriceInfo_Inr_length)
    then have whole: "off + 96 \<le> length data"
      by (simp add: slice_def)
    have comp: "component_of e (take 96 (drop off data)) =
        Inr \<lparr> publisher = PKorNull (slice data off (off + 32)), aggregate = a, latest = l \<rparr>"
      by (simp add: component_of_triple a l)
    have "length data - (off + 96) < length data - off"
      using lt by simp
    from less.hyps [OF this rest]
    have ih: "map Inr res =
        map Inr (cs @ [\<lparr> publisher = PKorNull (slice data off (off + 32)),
                          aggregate = a, latest = l \<rparr>]) @
        map (component_of e) (spec_triples (drop (off + 96) data))"
      and ih2: "\<forall>t\<in>set (spec_triples (drop (off + 96) data)). length t = 96"
      by simp_all
    have whole': "length (take 96 (drop off data)) = 96"
      using whole by simp
    show ?thesis
      unfolding spec_triples_present [OF lt pres]
      using ih ih2 comp whole' by simp
  qed
qed

lemma price_loop_returns:
  "\<forall>t\<in>set (spec_triples (drop off data)). length t = 96 \<Longrightarrow>
     \<exists>res. price_loop data e off True cs = Inr res"
proof (induction "length data - off" arbitrary: off cs rule: less_induct)
  case less
  show ?case
  proof (cases "off < length data \<and> slice data off (off + 32) \<noteq> empty32Buffer")
    case False
    then have "price_loop data e off True cs = Inr cs"
      using price_loop_end [of data off] price_loop_sentinel [of data off] by auto
    then show ?thesis by simp
  next
    case True
    then have lt: "off < length data" and pres: "slice data off (off + 32) \<noteq> empty32Buffer"
      by simp_all
    from less.prems have whole: "length (take 96 (drop off data)) = 96"
      and others: "\<forall>t\<in>set (spec_triples (drop (off + 96) data)). length t = 96"
      unfolding spec_triples_present [OF lt pres] by simp_all
    from whole have len: "off + 96 \<le> length data"
      by simp
    have "32 \<le> length (slice data (off + 32) (off + 64))"
      and "32 \<le> length (slice data (off + 64) (off + 96))"
      using len by (simp_all add: slice_def)
    then obtain a l where
      a: "parsePriceInfo (slice data (off + 32) (off + 64)) e = Inr a" and
      l: "parsePriceInfo (slice data (off + 64) (off + 96)) e = Inr l"
      using parsePriceInfo_Inr_iff by blast
    have "length data - (off + 96) < length data - off"
      using lt by simp
    from less.hyps [OF this others] show ?thesis
      by (simp add: price_loop_present [OF lt pres] a l)
  qed
qed

lemma parsePriceData_Inr_length: "parsePriceData data = Inr r \<Longrightarrow> 176 \<le> length data"
proof -
  assume "parsePriceData data = Inr r"
  then obtain e a where "parsePriceInfo (slice data 144 176) e = Inr a"
    by (auto simp: parsePriceData_def thenE_eq_Inr Let_def)
  then have "32 \<le> length (slice data 144 176)"
    by (rule parsePriceInfo_Inr_length)
  then show ?thesis
    by (simp add: slice_def)
qed

lemma parsePriceData_components:
  "parsePriceData data = Inr r \<Longrightarrow>
     price_loop data (exponent r) 176 True [] = Inr (priceComponents r)"
  by (auto simp: parsePriceData_def thenE_eq_Inr Let_def)

lemma parsePriceData_returns:
  assumes len: "176 \<le> length data"
    and ex: "readInt32LE data 20 = Inr ex"
    and loop: "price_loop data ex 176 True [] = Inr res"
  shows "\<exists>r. parsePriceData data = Inr r \<and> priceComponents r = res \<and> exponent r = ex \<and>
             numComponentPrices r = le_value (slice data 24 28)"
proof -
  have "32 \<le> length (slice data 144 176)"
    using len by (simp add: slice_def)
  then obtain info where info: "parsePriceInfo (slice data 144 176) ex = Inr info"
    using parsePriceInfo_Inr_iff by blast
  have reads:
    "readUInt32LE data 0 = Inr (le_value (slice data 0 4))"
    "readUInt32LE data 4 = Inr (le_value (slice data 4 8))"
    "readUInt32LE data 8 = Inr (le_value (slice data 8 12))"
    "readUInt32LE data 12 = Inr (le_value (slice data 12 16))"
    "readUInt32LE data 16 = Inr (le_value (slice data 16 20))"
    "readUInt32LE data 24 = Inr (le_value (slice data 24 28))"
    "readBigUInt64LE data 32 = Inr (le_value (slice data 32 40))"
    "readBigUInt64LE data 40 = Inr (le_value (slice data 40 48))"
    using len by (simp_all add: readUInt32LE_ok readBigUInt64LE_ok)
  have "parsePriceData data =
      Inr \<lparr> magic = le_value (slice data 0 4), version = le_value (slice data 4 8),
            type = le_value (slice data 8 12), size = le_value (slice data 12 16),
            priceType = le_value (slice data 16 20), exponent = ex,
            numComponentPrices = le_value (slice data 24 28),
            currentSlot = le_value (slice data 32 40), validSlot = le_value (slice data 40 48),
            productAccountKey = PublicKey (slice data 48 80),
            nextPriceAccountKey = PKorNull (slice data 80 112),
            aggregatePriceUpdaterAccountKey = PublicKey (slice data 112 144),
            priceComponent = Price.priceComponent info,
            price = Price.price info,
            confidenceComponent = Price.confidenceComponent info,
            confidence = Price.confidence info,
            status = Price.status info,
            corporateAction = Price.corporateAction info,
            publishSlot = Price.publishSlot info,
            priceComponents = res \<rparr>"
    unfolding parsePriceData_def reads ex thenE_Inr Let_def info loop
    by (rule refl)
  then show ?thesis
    by simp
qed

lemma parsePriceData_Inr_iff:
  "(\<exists>r. parsePriceData data = Inr r) \<longleftrightarrow>
      176 \<le> length data \<and> (\<forall>t\<in>set (spec_triples (drop 176 data)). length t = 96)"
proof
  assume "\<exists>r. parsePriceData data = Inr r"
  then obtain r where r: "parsePriceData data = Inr r" ..
  from price_loop_refines [OF parsePriceData_components [OF r]]
  have "\<forall>t\<in>set (spec_triples (drop 176 data)). length t = 96"
    by (rule conjunct2)
  with parsePriceData_Inr_length [OF r]
  show "176 \<le> length data \<and> (\<forall>t\<in>set (spec_triples (drop 176 data)). length t = 96)"
    by (rule conjI)
next
  assume "176 \<le> length data \<and> (\<forall>t\<in>set (spec_triples (drop 176 data)). length t = 96)"
  then have len: "176 \<le> length data"
    and whole: "\<forall>t\<in>set (spec_triples (drop 176 data)). length t = 96"
    by simp_all
  from len obtain ex where ex: "readInt32LE data 20 = Inr ex"
    using readInt32LE_total [of 20 data] by auto
  from price_loop_returns [OF whole, of ex "[]"] obtain res
    where "price_loop data ex 176 True [] = Inr res" ..
  from parsePriceData_returns [OF len ex this]
  show "\<exists>r. parsePriceData data = Inr r"
    by (elim exE conjE) (rule exI)
qed

lemma parsePriceData_refines:
  assumes r: "parsePriceData data = Inr r"
  shows "map Inr (priceComponents r) =
          map (component_of (exponent r)) (spec_triples (drop 176 data))"
proof -
  from price_loop_refines [OF parsePriceData_components [OF r]]
  have "map Inr (priceComponents r) =
      map Inr [] @ map (component_of (exponent r)) (spec_triples (drop 176 data))"
    by (rule conjunct1)
  then show ?thesis
    by (simp only: list.map append_Nil)
qed

lemma parsePriceData_sentinel:
  assumes z: "slice data 176 208 = empty32Buffer"
  shows "\<exists>r. parsePriceData data = Inr r \<and> priceComponents r = [] \<and>
          numComponentPrices r = le_value (slice data 24 28)"
proof -
  from z have "length (slice data 176 208) = 32"
    by (simp add: empty32Buffer_def)
  then have len: "176 \<le> length data"
    by (simp add: slice_def)
  from len obtain ex where ex: "readInt32LE data 20 = Inr ex"
    using readInt32LE_total [of 20 data] by auto
  from z have "price_loop data ex 176 True [] = Inr []"
    by (simp add: price_loop_sentinel)
  from parsePriceData_returns [OF len ex this]
  show ?thesis
    by (elim exE conjE) (intro exI conjI; assumption)
qed

subsection \<open>Buffers that agree from some offset on\<close>

lemma drop_from_header:
  "drop k data = drop k data' \<Longrightarrow> k \<le> a \<Longrightarrow> drop a data = drop a data'"
proof -
  assume eq: "drop k data = drop k data'" and le: "k \<le> a"
  have "drop a data = drop (a - k) (drop k data)"
    using le by simp
  also have "\<dots> = drop (a - k) (drop k data')"
    by (simp only: eq)
  also have "\<dots> = drop a data'"
    using le by simp
  finally show ?thesis .
qed

lemma slice_from_header:
  "drop k data = drop k data' \<Longrightarrow> k \<le> a \<Longrightarrow> slice data a b = slice data' a b"
  by (simp add: slice_def drop_from_header [of k data data' a])

lemma at_from_header:
  "length data = length data' \<Longrightarrow> drop k data = drop k data' \<Longrightarrow> k \<le> i \<Longrightarrow>
     at data i = at data' i"
proof -
  assume len: "length data = length data'" and eq: "drop k data = drop k data'" and le: "k \<le> i"
  have "data ! i = data' ! i" if "i < length data"
  proof -
    have "data ! i = drop k data ! (i - k)"
      using le that by simp
    also have "\<dots> = drop k data' ! (i - k)"
      by (simp only: eq)
    also have "\<dots> = data' ! i"
      using le that len by simp
    finally show ?thesis .
  qed
  then show ?thesis
    using len by (simp add: at_def)
qed

lemma readUInt32LE_from_header:
  "length data = length data' \<Longrightarrow> drop k data = drop k data' \<Longrightarrow> k \<le> off \<Longrightarrow>
     readUInt32LE data off = readUInt32LE data' off"
  by (simp add: readUInt32LE_def slice_from_header [of k data data' off])

lemma readInt32LE_from_header:
  "length data = length data' \<Longrightarrow> drop k data = drop k data' \<Longrightarrow> k \<le> off \<Longrightarrow>
     readInt32LE data off = readInt32LE data' off"
  by (simp add: readInt32LE_def slice_from_header [of k data data' off])

lemma readBigUInt64LE_from_header:
  "length data = length data' \<Longrightarrow> drop k data = drop k data' \<Longrightarrow> k \<le> off \<Longrightarrow>
     readBigUInt64LE data off = readBigUInt64LE data' off"
  by (simp add: readBigUInt64LE_def slice_from_header [of k data data' off])

lemma readUInt32LE_header:
  "length h = 8 \<Longrightarrow> readUInt32LE (h @ rest) 0 = Inr (le_value (take 4 h))"
  "length h = 8 \<Longrightarrow> readUInt32LE (h @ rest) 4 = Inr (le_value (drop 4 h))"
  by (simp_all add: readUInt32LE_def slice_def)

lemma mapping_loop_from_header:
  "drop k data = drop k data' \<Longrightarrow> k \<le> off \<Longrightarrow>
     mapping_loop data n i off keys = mapping_loop data' n i off keys"
  by (simp add: mapping_loop_closed slice_from_header [of k data data'])

lemma product_body_from_header:
  assumes "length data = length data'" and "drop k data = drop k data'" and "k \<le> idx"
  shows "product_body toString proto data idx m = product_body toString proto data' idx m"
proof -
  have a: "at data i = at data' i" if "k \<le> i" for i
    using assms(1,2) that by (rule at_from_header)
  have s: "slice data a b = slice data' a b" if "k \<le> a" for a b
    using assms(2) that by (rule slice_from_header)
  show ?thesis
    using assms(3) by (simp add: product_body_def a s Let_def cong: option.case_cong if_cong)
qed

lemma product_loop_from_header:
  "length data = length data' \<Longrightarrow> drop k data = drop k data' \<Longrightarrow> from_offset k j \<Longrightarrow>
     product_loop toString proto data n j m log = product_loop toString proto data' n j m log"
proof (induction toString proto data n j m log rule: product_loop.induct)
  case (1 toString proto data n idx m log)
  from "1.prems" have k: "k \<le> idx"
    by (simp add: from_offset_def)
  have body: "product_body toString proto data idx m = product_body toString proto data' idx m"
    using "1.prems"(1,2) k by (rule product_body_from_header)
  show ?case
  proof (cases "idx < n")
    case True
    obtain j1 m1 acc where b: "product_body toString proto data idx m = (j1, m1, acc)"
      by (cases "product_body toString proto data idx m") auto
    from product_body_log [OF b] k have "from_offset k j1"
      by (auto simp: from_offset_def split: jsnum.splits)
    from "1.IH" [OF True b [symmetric] refl "1.prems"(1,2) this]
    show ?thesis
      using True b body
      by (simp add: product_loop.simps(1) [of _ _ _ _ idx])
  next
    case False
    then show ?thesis
      by (simp add: product_loop.simps(1) [of _ _ _ _ idx])
  qed
next
  case (2 toString proto data n m log)
  show ?case by (simp add: product_loop.simps)
qed

lemma price_loop_from_header_running:
  "length data = length data' \<Longrightarrow> drop k data = drop k data' \<Longrightarrow> k \<le> off \<Longrightarrow>
     price_loop data e off True cs = price_loop data' e off True cs"
proof (induction "length data - off" arbitrary: off cs rule: less_induct)
  case less
  have s: "slice data a b = slice data' a b" if "k \<le> a" for a b
    using less.prems(2) that by (rule slice_from_header)
  have here: "slice data off (off + 32) = slice data' off (off + 32)"
    and agg: "slice data (off + 32) (off + 64) = slice data' (off + 32) (off + 64)"
    and lat: "slice data (off + 64) (off + 96) = slice data' (off + 64) (off + 96)"
    using less.prems(3) by (simp_all add: s)
  have len: "length data' = length data"
    using less.prems(1) by simp
  show ?case
  proof (cases "off < length data")
    case False
    then have "price_loop data e off True cs = Inr cs"
      by (simp add: price_loop_end)
    moreover from False have "price_loop data' e off True cs = Inr cs"
      by (simp add: price_loop_end len)
    ultimately show ?thesis by simp
  next
    case lt: True
    then have lt': "off < length data'"
      by (simp add: len)
    show ?thesis
    proof (cases "slice data off (off + 32) = empty32Buffer")
      case True
      then have "price_loop data e off True cs = Inr cs"
        by (rule price_loop_sentinel)
      moreover from True here have "slice data' off (off + 32) = empty32Buffer"
        by simp
      then have "price_loop data' e off True cs = Inr cs"
        by (rule price_loop_sentinel)
      ultimately show ?thesis by simp
    next
      case pres: False
      with here have pres': "slice data' off (off + 32) \<noteq> empty32Buffer"
        by simp
      have smaller: "length data - (off + 96) < length data - off"
        using lt by simp
      have further: "k \<le> off + 96"
        using less.prems(3) by simp
      have ih: "price_loop data e (off + 96) True cs' = price_loop data' e (off + 96) True cs'"
        for cs'
        using smaller less.prems(1,2) further by (rule less.hyps)
      show ?thesis
        unfolding price_loop_present [OF lt pres] price_loop_present [OF lt' pres']
        by (simp only: here agg lat ih)
    qed
  qed
qed

lemma price_loop_from_header:
  "length data = length data' \<Longrightarrow> drop k data = drop k data' \<Longrightarrow> k \<le> off \<Longrightarrow>
     price_loop data e off sc cs = price_loop data' e off sc cs"
  using price_loop_from_header_running [of data data' k off e cs]
  by (cases sc) (simp_all add: price_loop_stop)

section \<open>The nullable identifier\<close>

text \<open>
  Claim C5. For a 32-byte input, \<^verbatim>\<open>PKorNull\<close> returns \<^verbatim>\<open>null\<close> exactly when all 32 bytes
  are zero; otherwise it returns the key built from the 32 input bytes, unchanged and
  with no other check. \<open>PKorNull\<close> is a function of its argument alone.
\<close>

theorem PKorNull_absent_iff_all_zero:
  "length data = 32 \<Longrightarrow>
     (PKorNull data = None \<longleftrightarrow> (\<forall>i<32. data ! i = 0)) \<and>
     (PKorNull data \<noteq> None \<longrightarrow> PKorNull data = Some (PublicKey data))"
  by (auto simp: PKorNull_def empty32Buffer_def list_eq_iff_nth_eq)

theorem PKorNull_absent_iff_all_zero_witness:
  "length (replicate 32 (0::byte)) = 32 \<and> PKorNull (replicate 32 0) = None \<and>
   length (replicate 31 0 @ [1::byte]) = 32 \<and>
   PKorNull (replicate 31 0 @ [1]) = Some (PublicKey (replicate 31 0 @ [1]))"
proof -
  have z: "length (replicate 32 (0::byte)) = 32" and o: "length (replicate 31 0 @ [1::byte]) = 32"
    by simp_all
  have "\<not> (\<forall>i<32. (replicate 31 0 @ [1::byte]) ! i = 0)"
    by (auto simp: nth_append intro!: exI [of _ 31])
  then show ?thesis
    using PKorNull_absent_iff_all_zero [OF z] PKorNull_absent_iff_all_zero [OF o]
    by auto
qed

section \<open>The product list of a mapping account\<close>

text \<open>
  Claim C4. Once the product count at offset 16 can be read, \<^verbatim>\<open>parseMappingData\<close> returns
  a record whose product list has exactly that many entries, whatever the length of the
  rest of the buffer. Entry \<open>i\<close> is the key of the slice from \<open>56 + 32 * i\<close>, which is
  the 32 bytes at that offset whenever the buffer holds them.
\<close>

theorem parseMappingData_product_list:
  "readUInt32LE data 16 = Inr numProducts \<Longrightarrow>
     \<exists>r. parseMappingData data = Inr r \<and>
         length (productAccountKeys r) = numProducts \<and>
         (\<forall>i<numProducts.
            productAccountKeys r ! i = PublicKey (slice data (56 + 32 * i) (56 + 32 * i + 32)) \<and>
            (56 + 32 * i + 32 \<le> length data \<longrightarrow>
               slice data (56 + 32 * i) (56 + 32 * i + 32) = take 32 (drop (56 + 32 * i) data) \<and>
               length (slice data (56 + 32 * i) (56 + 32 * i + 32)) = 32))"
proof -
  assume a: "readUInt32LE data 16 = Inr numProducts"
  then have len: "20 \<le> length data"
    by (simp add: readUInt32LE_def split: if_splits)
  then show ?thesis using a
    by (simp add: parseMappingData_def readUInt32LE_ok mapping_loop_closed Let_def slice_def)
qed

theorem parseMappingData_product_list_witness:
  "readUInt32LE (replicate 16 0 @ [2, 0, 0, 0]) 16 = Inr 2 \<and>
   (\<exists>r. parseMappingData (replicate 16 0 @ [2, 0, 0, 0]) = Inr r \<and>
        length (productAccountKeys r) = 2 \<and>
        productAccountKeys r ! 1 = PublicKey [])"
proof -
  have h: "readUInt32LE (replicate 16 0 @ [2, 0, 0, 0]) 16 = Inr 2"
    by (simp add: readUInt32LE_def slice_def)
  from parseMappingData_product_list [OF h] show ?thesis
    using h by (auto simp: slice_def)
qed

section \<open>The metadata loop of a product account\<close>

text \<open>
  Claim C3. The claim has every step with a key-length byte \<open>k > 0\<close> and a value-length
  byte \<open>v\<close> move \<^verbatim>\<open>idx\<close> on by \<open>1 + k + 1 + v\<close> and insert exactly one entry. The code
  moves \<^verbatim>\<open>idx\<close> so (\<open>product_body_step\<close> above), and it stores the entry for every key
  but one: in \<open>proto_product\<close> the entry at offset 48 has the 9-byte key \<^verbatim>\<open>__proto__\<close> and
  the value \<^verbatim>\<open>x\<close>; the step moves \<^verbatim>\<open>idx\<close> from 48 to 60 and the metadata stays empty, and
  so does the metadata of the decoded record.
\<close>

theorem product_body_drops_proto_key:
  "readUInt32LE proto_product 12 = Inr 60 \<and>
   at proto_product 48 = Some 9 \<and> at proto_product (48 + 1 + 9) = Some 1 \<and>
   slice proto_product 49 58 = proto_key \<and> slice proto_product 59 60 = [120] \<and>
   product_body (\<lambda>b. b) proto_key proto_product 48 Map.empty =
     (Num 60, Map.empty, [KeyLength 48, KeyBytes 49 58, ValueLength 58, ValueBytes 59 60]) \<and>
   parseProductData (\<lambda>b. b) proto_key proto_product =
     Inr \<lparr> magic = 0, version = 0, type = 0, size = 60,
           priceAccountKey = PublicKey (replicate 32 0), product = Map.empty \<rparr>"
proof -
  have reads:
    "readUInt32LE proto_product 0 = Inr 0" "readUInt32LE proto_product 4 = Inr 0"
    "readUInt32LE proto_product 8 = Inr 0" "readUInt32LE proto_product 12 = Inr 60"
    by (simp_all add: proto_product_def readUInt32LE_def slice_def le_value_zeros)
  have ats: "at proto_product 48 = Some 9" "at proto_product 58 = Some 1"
    by (simp_all add: proto_product_def at_def nth_append)
  have slices: "slice proto_product 49 58 = proto_key" "slice proto_product 59 60 = [120]"
    "slice proto_product 16 48 = replicate 32 0"
    by (simp_all add: proto_product_def proto_key_def slice_def)
  have body: "product_body (\<lambda>b. b) proto_key proto_product 48 Map.empty =
     (Num 60, Map.empty, [KeyLength 48, KeyBytes 49 58, ValueLength 58, ValueBytes 59 60])"
    by (simp add: product_body_def ats slices assign_property_def Let_def)
  have loop: "product_loop (\<lambda>b. b) proto_key proto_product 60 (Num 48) Map.empty [] =
     (Num 60, Map.empty, [KeyLength 48, KeyBytes 49 58, ValueLength 58, ValueBytes 59 60])"
    by (simp add: product_loop.simps(1) [of _ _ _ _ 48] product_loop.simps(1) [of _ _ _ _ 60] body)
  have "parseProductData (\<lambda>b. b) proto_key proto_product =
     Inr \<lparr> magic = 0, version = 0, type = 0, size = 60,
           priceAccountKey = PublicKey (replicate 32 0), product = Map.empty \<rparr>"
    by (simp add: parseProductData_def reads slices loop)
  with reads(4) ats slices(1,2) body show ?thesis
    by simp
qed

text \<open>
  Claim C10. When the declared used-size is larger than the buffer, \<^verbatim>\<open>parseProductData\<close>
  still returns a record. Every key-length read at or beyond the end of the buffer is
  \<^verbatim>\<open>undefined\<close>: the body moves \<open>idx\<close> on by one and stores nothing. The metadata is
  what the loop yields when it is run only as far as the end of the buffer.
\<close>

theorem parseProductData_used_size_beyond_buffer:
  "readUInt32LE data 12 = Inr n \<Longrightarrow> length data < n \<Longrightarrow>
     \<exists>r. parseProductData toString proto data = Inr r \<and>
         product r = fst (snd (product_loop toString proto data (length data) (Num 48) Map.empty [])) \<and>
         (\<forall>idx m. length data \<le> idx \<longrightarrow>
            at data idx = None \<and>
            product_body toString proto data idx m = (Num (idx + 1), m, [KeyLength idx]))"
proof -
  assume a: "readUInt32LE data 12 = Inr n" and b: "length data < n"
  from a have len: "16 \<le> length data"
    by (simp add: readUInt32LE_def split: if_splits)
  from a len have n: "n = le_value (slice data 12 16)"
    by (simp add: readUInt32LE_ok)
  have eq: "fst (snd (product_loop toString proto data n (Num 48) Map.empty [])) =
        fst (snd (product_loop toString proto data (length data) (Num 48) Map.empty []))"
    using b by (intro product_loop_in_bounds) simp
  obtain j' m' lg where pl: "product_loop toString proto data n (Num 48) Map.empty [] = (j', m', lg)"
    by (cases "product_loop toString proto data n (Num 48) Map.empty []") auto
  with eq have m': "m' = fst (snd (product_loop toString proto data (length data) (Num 48) Map.empty []))"
    by simp
  have "parseProductData toString proto data =
          Inr \<lparr> magic = le_value (slice data 0 4), version = le_value (slice data 4 8),
                type = le_value (slice data 8 12), size = n,
                priceAccountKey = PublicKey (slice data 16 48), product = m' \<rparr>"
    using len n pl by (simp add: parseProductData_def readUInt32LE_ok Let_def)
  then show ?thesis
    using m' by (simp add: product_body_outside at_outside)
qed

theorem parseProductData_used_size_beyond_buffer_witness:
  "readUInt32LE (replicate 12 0 @ [60, 0, 0, 0]) 12 = Inr 60 \<and>
   length (replicate 12 0 @ [60, 0, 0, 0 :: byte]) < 60 \<and>
   (\<exists>r. parseProductData (\<lambda>b. b) proto_key (replicate 12 0 @ [60, 0, 0, 0]) = Inr r \<and>
        product r = Map.empty)"
proof -
  have h: "readUInt32LE (replicate 12 0 @ [60, 0, 0, 0]) 12 = Inr 60"
    by (simp add: readUInt32LE_def slice_def)
  have l: "length (replicate 12 0 @ [60, 0, 0, 0 :: byte]) < 60"
    by simp
  from parseProductData_used_size_beyond_buffer [OF h l, of "\<lambda>b. b" proto_key] show ?thesis
    using h l by (auto simp: product_loop.simps)
qed

text \<open>
  Claim C6, as the code has it. With the used-size inside the buffer, the loop reads a
  key-length byte only at offsets from 48 up to, not including, the used-size, and each
  such read is inside the buffer. It leaves with \<^verbatim>\<open>idx\<close> at or beyond the used-size (or
  \<^verbatim>\<open>NaN\<close>). Nothing holds the key bytes, the value-length byte and the value bytes of an
  entry below the used-size: they are read where the length bytes put them.
\<close>

theorem product_loop_key_length_below_used_size:
  "readUInt32LE data 12 = Inr n \<Longrightarrow> n \<le> length data \<Longrightarrow>
     product_loop toString proto data n (Num 48) Map.empty [] = (j, m, log) \<Longrightarrow>
     (\<forall>i. KeyLength i \<in> set log \<longrightarrow> 48 \<le> i \<and> i < n \<and> touched data (KeyLength i) = {i}) \<and>
     from_offset n j"
proof -
  assume n: "n \<le> length data"
    and run: "product_loop toString proto data n (Num 48) Map.empty [] = (j, m, log)"
  have start: "from_offset 48 (Num 48)"
    by (simp add: from_offset_def)
  have "48 \<le> i \<and> i < n \<and> touched data (KeyLength i) = {i}" if "KeyLength i \<in> set log" for i
    using product_loop_key_length_reads [OF run start that] n by auto
  then show ?thesis
    using product_loop_exit [OF run] by blast
qed

theorem product_loop_key_length_below_used_size_witness:
  "readUInt32LE overrun_product 12 = Inr 49 \<and> 49 \<le> length overrun_product \<and>
   product_loop (\<lambda>b. b) proto_key overrun_product 49 (Num 48) Map.empty [] =
     (Num 53, [[97, 98] \<mapsto> [99]],
      [KeyLength 48, KeyBytes 49 51, ValueLength 51, ValueBytes 52 53]) \<and>
   touched overrun_product (KeyLength 48) = {48} \<and> from_offset 49 (Num 53)"
proof -
  have h: "readUInt32LE overrun_product 12 = Inr 49"
    by (simp add: overrun_product_def readUInt32LE_def slice_def)
  have l: "49 \<le> length overrun_product"
    by (simp add: overrun_product_def)
  have r: "product_loop (\<lambda>b. b) proto_key overrun_product 49 (Num 48) Map.empty [] =
     (Num 53, [[97, 98] \<mapsto> [99]],
      [KeyLength 48, KeyBytes 49 51, ValueLength 51, ValueBytes 52 53])"
    by (simp add: product_loop.simps product_body_def overrun_at Let_def)
       (simp add: overrun_product_def slice_def assign_property_def proto_key_def)
  from product_loop_key_length_below_used_size [OF h l r] show ?thesis
    using h l r by simp
qed

text \<open>
  Claim C6 as stated fails: in \<open>overrun_product\<close> the used-size is 49 and the buffer has
  53 bytes, yet the loop reads key bytes at 49 and 50, the value-length byte at 51 and a
  value byte at 52, and it stops with \<^verbatim>\<open>idx\<close> at 53.
\<close>

theorem product_loop_reads_past_used_size:
  "readUInt32LE overrun_product 12 = Inr 49 \<and> 49 \<le> length overrun_product \<and>
   product_loop (\<lambda>b. b) proto_key overrun_product 49 (Num 48) Map.empty [] =
     (Num 53, [[97, 98] \<mapsto> [99]],
      [KeyLength 48, KeyBytes 49 51, ValueLength 51, ValueBytes 52 53]) \<and>
   50 \<in> touched overrun_product (KeyBytes 49 51) \<and>
   51 \<in> touched overrun_product (ValueLength 51) \<and>
   52 \<in> touched overrun_product (ValueBytes 52 53) \<and>
   \<not> (53::nat) \<le> 49"
  by (simp add: product_loop.simps product_body_def overrun_at Let_def)
     (simp add: overrun_product_def readUInt32LE_def slice_def assign_property_def proto_key_def)

section \<open>Status and corporate-action ordinals\<close>

text \<open>
  Claim C9, as the code has it. For a 32-byte Price-Info block the decoder returns a
  record whose status and corporate action are the unsigned 32-bit values at bytes 16 to
  19 and 20 to 23, unchanged, whatever they are: it never fails on them, and it does
  not look them up in the tables.
\<close>

theorem parsePriceInfo_raw_ordinals:
  "length data = 32 \<Longrightarrow>
     \<exists>r. parsePriceInfo data e = Inr r \<and>
         Price.status r = le_value (slice data 16 20) \<and>
         Price.corporateAction r = le_value (slice data 20 24)"
  by (simp add: parsePriceInfo_ok)

theorem parsePriceInfo_raw_ordinals_witness:
  "length odd_ordinals = 32 \<and>
   (\<exists>r. parsePriceInfo odd_ordinals (- 2) = Inr r \<and>
        Price.status r = 7 \<and> Price.corporateAction r = 9)"
proof -
  have l: "length odd_ordinals = 32"
    by (simp add: odd_ordinals_def)
  from parsePriceInfo_raw_ordinals [OF l, of "- 2"] show ?thesis
    using l by (simp add: odd_ordinals_def slice_def)
qed

text \<open>
  Claim C9 as stated fails: status ordinal 7 and corporate-action ordinal 9 lie outside
  the tables \<open>PriceStatus\<close> and \<open>CorpAction\<close>, and the decoder returns them as 7 and 9,
  not as the ordinal 0 of \<open>''Unknown''\<close> or any other marker.
\<close>

theorem parsePriceInfo_ordinal_outside_table:
  "parsePriceInfo odd_ordinals (- 2) =
     Inr \<lparr> Price.priceComponent = 0, Price.price = Scaled 0 (- 2),
           Price.confidenceComponent = 0, Price.confidence = Scaled 0 (- 2),
           Price.status = 7, Price.corporateAction = 9, Price.publishSlot = 0 \<rparr> \<and>
   \<not> 7 < length PriceStatus \<and> PriceStatus ! 0 = ''Unknown'' \<and> (7::nat) \<noteq> 0 \<and>
   \<not> 9 < length CorpAction"
  by (simp add: parsePriceInfo_ok odd_ordinals_def slice_def PriceStatus_def CorpAction_def
      le_value_zeros)

section \<open>The component list of a price account\<close>

text \<open>
  Claim C2. \<^verbatim>\<open>parsePriceData\<close> returns a record exactly when the buffer has the 176
  bytes of the fixed part and every triple that \<open>spec_triples\<close> cuts from offset 176 is a
  whole one. The component list of the record is then exactly those triples, decoded in
  order: the consecutive 96-byte triples up to, not including, the first whose publisher
  span is all zero, or up to the end of the buffer. What lies behind that publisher span
  is never looked at. In particular an all-zero span at offset 176 gives the empty list,
  whatever the declared component count is.
\<close>

theorem parsePriceData_component_list:
  "((\<exists>r. parsePriceData data = Inr r) \<longleftrightarrow>
      176 \<le> length data \<and> (\<forall>t\<in>set (spec_triples (drop 176 data)). length t = 96)) \<and>
   (\<forall>r. parsePriceData data = Inr r \<longrightarrow>
      map Inr (priceComponents r) =
        map (component_of (exponent r)) (spec_triples (drop 176 data))) \<and>
   (slice data 176 208 = empty32Buffer \<longrightarrow>
      (\<exists>r. parsePriceData data = Inr r \<and> priceComponents r = [] \<and>
           numComponentPrices r = le_value (slice data 24 28)))"
  using parsePriceData_Inr_iff [of data] parsePriceData_refines [of data]
    parsePriceData_sentinel [of data]
  by (intro conjI allI impI)

theorem parsePriceData_component_list_witness:
  "slice sentinel_price 176 208 = empty32Buffer \<and>
   (\<exists>r. parsePriceData sentinel_price = Inr r \<and> priceComponents r = [] \<and>
        numComponentPrices r = 5) \<and>
   176 \<le> length one_component_price \<and>
   spec_triples (drop 176 one_component_price) = [replicate 32 1 @ replicate 64 0] \<and>
   (\<exists>r. parsePriceData one_component_price = Inr r \<and> length (priceComponents r) = 1)"
proof -
  have z: "slice sentinel_price 176 208 = empty32Buffer"
    by (simp add: sentinel_price_def slice_def empty32Buffer_def)
  have n: "le_value (slice sentinel_price 24 28) = 5"
    by (simp add: sentinel_price_def slice_def)
  have l: "176 \<le> length one_component_price"
    by (simp add: one_component_price_def)
  have d: "drop 176 one_component_price =
      replicate 32 1 @ replicate 64 0 @ replicate 32 0 @ [1, 2, 3]"
    by (simp add: one_component_price_def)
  have t: "spec_triples (drop 176 one_component_price) = [replicate 32 1 @ replicate 64 0]"
    unfolding d
    by (subst spec_triples.simps, simp add: empty32Buffer_def)
       (subst spec_triples.simps, simp add: empty32Buffer_def)
  have w: "\<forall>t\<in>set (spec_triples (drop 176 one_component_price)). length t = 96"
    by (simp add: t)
  note inst0 = parsePriceData_component_list [of sentinel_price]
  note inst1 = parsePriceData_component_list [of one_component_price]
  from inst0 z n have first: "\<exists>r. parsePriceData sentinel_price = Inr r \<and>
      priceComponents r = [] \<and> numComponentPrices r = 5"
    by simp
  from inst1 l w obtain r where r: "parsePriceData one_component_price = Inr r"
    by blast
  with inst1 have "map Inr (priceComponents r) =
      map (component_of (exponent r)) (spec_triples (drop 176 one_component_price))"
    by blast
  then have "length (map Inr (priceComponents r) :: (error + PriceComponent) list) = 1"
    by (simp add: t)
  then have "length (priceComponents r) = 1"
    by simp
  with r have second: "\<exists>r. parsePriceData one_component_price = Inr r \<and>
      length (priceComponents r) = 1"
    by (intro exI conjI)
  from z first l t second show ?thesis
    by (intro conjI)
qed

section \<open>Buffers that are too short\<close>

text \<open>
  Claim C7, as the code has it. Only the fixed-width integer reads check the length of
  the buffer. The mapping decoder throws exactly for buffers of fewer than 20 bytes, the
  product decoder exactly for buffers of fewer than 16 bytes. The price decoder throws
  exactly for buffers of fewer than 176 bytes and for buffers in which the loop reaches
  a position, before the end of the buffer, where the publisher span that \<^verbatim>\<open>slice\<close>
  returns is not equal to 32 zero bytes and fewer than 96 bytes are left. A span that
  the end of the buffer cuts to fewer than 32 bytes is never equal to 32 zero bytes,
  also when all its bytes are zero. Identifier spans and metadata bytes are taken with
  \<^verbatim>\<open>slice\<close> and \<^verbatim>\<open>data[idx]\<close>, which never throw.
\<close>

theorem decoders_range_error:
  "((\<exists>e. parseMappingData data = Inl e) \<longleftrightarrow> length data < 20) \<and>
   ((\<exists>e. parseProductData toString proto data = Inl e) \<longleftrightarrow> length data < 16) \<and>
   ((\<exists>e. parsePriceData data = Inl e) \<longleftrightarrow>
      length data < 176 \<or> (\<exists>t\<in>set (spec_triples (drop 176 data)). length t \<noteq> 96))"
proof (intro conjI)
  have "(\<exists>e. parseMappingData data = Inl e) \<longleftrightarrow> \<not> 20 \<le> length data"
    by (rule Inl_iff_not) (auto dest: parseMappingData_Inr_length intro: parseMappingData_ok)
  then show "(\<exists>e. parseMappingData data = Inl e) \<longleftrightarrow> length data < 20"
    by (simp add: not_le)
  have "(\<exists>e. parseProductData toString proto data = Inl e) \<longleftrightarrow> \<not> 16 \<le> length data"
    by (rule Inl_iff_not) (auto dest: parseProductData_Inr_length intro: parseProductData_ok)
  then show "(\<exists>e. parseProductData toString proto data = Inl e) \<longleftrightarrow> length data < 16"
    by (simp add: not_le)
  have "(\<exists>e. parsePriceData data = Inl e) \<longleftrightarrow>
      \<not> (176 \<le> length data \<and> (\<forall>t\<in>set (spec_triples (drop 176 data)). length t = 96))"
  proof (rule Inl_iff_not)
    fix r
    assume "parsePriceData data = Inr r"
    then have "\<exists>r. parsePriceData data = Inr r" ..
    then show "176 \<le> length data \<and> (\<forall>t\<in>set (spec_triples (drop 176 data)). length t = 96)"
      by (rule parsePriceData_Inr_iff [THEN iffD1])
  next
    assume "176 \<le> length data \<and> (\<forall>t\<in>set (spec_triples (drop 176 data)). length t = 96)"
    then show "\<exists>r. parsePriceData data = Inr r"
      by (rule parsePriceData_Inr_iff [THEN iffD2])
  qed
  then show "(\<exists>e. parsePriceData data = Inl e) \<longleftrightarrow>
      length data < 176 \<or> (\<exists>t\<in>set (spec_triples (drop 176 data)). length t \<noteq> 96)"
    by (auto simp: not_le)
qed

theorem decoders_range_error_witness:
  "length (replicate 19 (0::byte)) < 20 \<and> (\<exists>e. parseMappingData (replicate 19 0) = Inl e) \<and>
   length (replicate 19 (0::byte)) < 176 \<and> (\<exists>e. parsePriceData (replicate 19 0) = Inl e) \<and>
   \<not> length (replicate 19 (0::byte)) < 16 \<and>
   \<not> (\<exists>e. parseProductData (\<lambda>b. b) proto_key (replicate 19 0) = Inl e) \<and>
   \<not> length (replicate 176 0 @ replicate 40 (1::byte)) < 176 \<and>
   spec_triples (drop 176 (replicate 176 0 @ replicate 40 1)) = [replicate 40 1] \<and>
   (\<exists>e. parsePriceData (replicate 176 0 @ replicate 40 1) = Inl e) \<and>
   \<not> length (replicate 192 (0::byte)) < 176 \<and>
   spec_triples (drop 176 (replicate 192 0)) = [replicate 16 0] \<and>
   (\<exists>e. parsePriceData (replicate 192 0) = Inl e) \<and>
   \<not> length (replicate 208 (0::byte)) < 176 \<and>
   spec_triples (drop 176 (replicate 208 0)) = [] \<and>
   \<not> (\<exists>e. parsePriceData (replicate 208 0) = Inl e)"
proof -
  have cut: "spec_triples (drop 176 (replicate 176 0 @ replicate 40 1)) = [replicate 40 1]"
    by (subst spec_triples.simps, simp add: empty32Buffer_def)
       (subst spec_triples.simps, simp)
  have zeros: "spec_triples (drop 176 (replicate 192 0)) = [replicate 16 0]"
    by (subst spec_triples.simps, simp add: empty32Buffer_def)
       (subst spec_triples.simps, simp)
  have sentinel: "spec_triples (drop 176 (replicate 208 0)) = []"
    by (subst spec_triples.simps, simp add: empty32Buffer_def)
  from decoders_range_error [of "replicate 19 0" "\<lambda>b. b" proto_key]
  have short: "(\<exists>e. parseMappingData (replicate 19 0) = Inl e) \<and>
      (\<exists>e. parsePriceData (replicate 19 0) = Inl e) \<and>
      \<not> (\<exists>e. parseProductData (\<lambda>b. b) proto_key (replicate 19 0) = Inl e)"
    by simp
  from decoders_range_error [of "replicate 176 0 @ replicate 40 1" "\<lambda>b. b" proto_key] cut
  have one: "\<exists>e. parsePriceData (replicate 176 0 @ replicate 40 1) = Inl e"
    by simp
  from decoders_range_error [of "replicate 192 0" "\<lambda>b. b" proto_key] zeros
  have two: "\<exists>e. parsePriceData (replicate 192 0) = Inl e"
    by simp
  from decoders_range_error [of "replicate 208 0" "\<lambda>b. b" proto_key] sentinel
  have three: "\<not> (\<exists>e. parsePriceData (replicate 208 0) = Inl e)"
    by simp
  from short cut one zeros two sentinel three show ?thesis
    by simp
qed

text \<open>
  Claim C7 as stated fails: a mapping buffer of 20 bytes with product count 1 has neither
  the next-account span at 24 nor the product identifier at 56, and it decodes to a
  record whose keys are built from empty slices.
\<close>

theorem short_mapping_buffer_decodes:
  "parseMappingData (replicate 16 0 @ [1, 0, 0, 0]) =
     Inr \<lparr> magic = 0, version = 0, type = 0, size = 0,
           nextMappingAccount = Some (PublicKey []),
           productAccountKeys = [PublicKey []] \<rparr> \<and>
   length (replicate 16 0 @ [1, 0, 0, 0 :: byte]) < 56 + 32"
  by (simp add: parseMappingData_def readUInt32LE_def slice_def mapping_loop_closed
      PKorNull_def empty32Buffer_def Let_def le_value_zeros)

section \<open>Magic and version\<close>

text \<open>
  Claim C8, as the code has it. No decoder compares the magic or the version with
  \<open>Magic\<close> and \<open>Version\<close>. For a buffer of at least 8 bytes, putting any other 8 bytes
  in place of the first 8 changes nothing in what a decoder does, except the two fields
  \<open>magic\<close> and \<open>version\<close> of the record it returns, which are the values read at offsets
  0 and 4.
\<close>

theorem decoders_ignore_magic_and_version:
  assumes h: "length h = 8" and h': "length h' = 8"
  shows "parseMappingData (h' @ rest) =
           map_sum id (\<lambda>r. r\<lparr>magic := le_value (take 4 h'), version := le_value (drop 4 h')\<rparr>)
             (parseMappingData (h @ rest)) \<and>
         parseProductData toString proto (h' @ rest) =
           map_sum id (\<lambda>r. r\<lparr>magic := le_value (take 4 h'), version := le_value (drop 4 h')\<rparr>)
             (parseProductData toString proto (h @ rest)) \<and>
         parsePriceData (h' @ rest) =
           map_sum id (\<lambda>r. r\<lparr>magic := le_value (take 4 h'), version := le_value (drop 4 h')\<rparr>)
             (parsePriceData (h @ rest))"
proof -
  have len: "length (h @ rest) = length (h' @ rest)"
    and tail: "drop 8 (h @ rest) = drop 8 (h' @ rest)"
    using h h' by simp_all
  have u32: "readUInt32LE (h @ rest) off = readUInt32LE (h' @ rest) off" if "8 \<le> off" for off
    using len tail that by (rule readUInt32LE_from_header)
  have i32: "readInt32LE (h @ rest) off = readInt32LE (h' @ rest) off" if "8 \<le> off" for off
    using len tail that by (rule readInt32LE_from_header)
  have u64: "readBigUInt64LE (h @ rest) off = readBigUInt64LE (h' @ rest) off" if "8 \<le> off" for off
    using len tail that by (rule readBigUInt64LE_from_header)
  have sl: "slice (h @ rest) a b = slice (h' @ rest) a b" if "8 \<le> a" for a b
    using tail that by (rule slice_from_header)
  have ml: "mapping_loop (h @ rest) n i off keys = mapping_loop (h' @ rest) n i off keys"
    if "8 \<le> off" for n i off keys
    using tail that by (rule mapping_loop_from_header)
  have pl: "product_loop toString proto (h @ rest) n (Num 48) m log =
            product_loop toString proto (h' @ rest) n (Num 48) m log" for n m log
    using len tail by (rule product_loop_from_header) (simp add: from_offset_def)
  have cl: "price_loop (h @ rest) e 176 sc cs = price_loop (h' @ rest) e 176 sc cs" for e sc cs
    using len tail by (rule price_loop_from_header) simp
  have mapping: "parseMappingData (h' @ rest) =
           map_sum id (\<lambda>r. r\<lparr>magic := le_value (take 4 h'), version := le_value (drop 4 h')\<rparr>)
             (parseMappingData (h @ rest))"
    by (simp add: parseMappingData_def readUInt32LE_header h h' u32 sl ml map_sum_thenE Let_def)
  have product: "parseProductData toString proto (h' @ rest) =
           map_sum id (\<lambda>r. r\<lparr>magic := le_value (take 4 h'), version := le_value (drop 4 h')\<rparr>)
             (parseProductData toString proto (h @ rest))"
    by (simp add: parseProductData_def readUInt32LE_header h h' u32 sl pl map_sum_thenE Let_def
        case_prod_beta)
  have price: "parsePriceData (h' @ rest) =
           map_sum id (\<lambda>r. r\<lparr>magic := le_value (take 4 h'), version := le_value (drop 4 h')\<rparr>)
             (parsePriceData (h @ rest))"
    by (simp add: parsePriceData_def readUInt32LE_header h h' u32 i32 u64 sl cl map_sum_thenE
        Let_def)
  from mapping product price show ?thesis
    by (intro conjI)
qed

theorem decoders_ignore_magic_and_version_witness:
  "length [0xd4, 0xc3, 0xb2, 0xa1, 1, 0, 0, 0 :: byte] = 8 \<and>
   length [0xd5, 0xc3, 0xb2, 0xa1, 2, 0, 0, 0 :: byte] = 8 \<and>
   parsePriceData ([0xd5, 0xc3, 0xb2, 0xa1, 2, 0, 0, 0] @ replicate 168 0) =
     map_sum id (\<lambda>r. r\<lparr>magic := le_value (take 4 [0xd5, 0xc3, 0xb2, 0xa1, 2, 0, 0, 0]),
                        version := le_value (drop 4 [0xd5, 0xc3, 0xb2, 0xa1, 2, 0, 0, 0])\<rparr>)
       (parsePriceData ([0xd4, 0xc3, 0xb2, 0xa1, 1, 0, 0, 0] @ replicate 168 0))"
proof -
  have a: "length [0xd4, 0xc3, 0xb2, 0xa1, 1, 0, 0, 0 :: byte] = 8"
    and b: "length [0xd5, 0xc3, 0xb2, 0xa1, 2, 0, 0, 0 :: byte] = 8"
    by simp_all
  from decoders_ignore_magic_and_version [OF a b, of "replicate 168 0" "\<lambda>b. b" proto_key] a b
  show ?thesis
    by (intro conjI) (elim conjE, assumption)+
qed

text \<open>
  Claim C8 as stated fails: \<open>wrong_header_price\<close> has neither the magic nor the version
  of the format, and it decodes to a record.
\<close>

theorem wrong_magic_and_version_decode:
  "parsePriceData wrong_header_price =
     Inr \<lparr> magic = 0xa1b2c3d5, version = 2, type = 0, size = 0,
           priceType = 0, exponent = 0, numComponentPrices = 0,
           currentSlot = 0, validSlot = 0,
           productAccountKey = PublicKey (replicate 32 0),
           nextPriceAccountKey = None,
           aggregatePriceUpdaterAccountKey = PublicKey (replicate 32 0),
           priceComponent = 0, price = Scaled 0 0,
           confidenceComponent = 0, confidence = Scaled 0 0,
           status = 0, corporateAction = 0, publishSlot = 0,
           priceComponents = [] \<rparr> \<and>
   (0xa1b2c3d5 :: nat) \<noteq> Magic \<and> (2 :: nat) \<noteq> Version"
proof -
  have len: "length wrong_header_price = 176"
    by (simp add: wrong_header_price_def)
  have reads:
    "readUInt32LE wrong_header_price 0 = Inr 0xa1b2c3d5"
    "readUInt32LE wrong_header_price 4 = Inr 2"
    "readUInt32LE wrong_header_price 8 = Inr 0"
    "readUInt32LE wrong_header_price 12 = Inr 0"
    "readUInt32LE wrong_header_price 16 = Inr 0"
    "readInt32LE wrong_header_price 20 = Inr 0"
    "readUInt32LE wrong_header_price 24 = Inr 0"
    "readBigUInt64LE wrong_header_price 32 = Inr 0"
    "readBigUInt64LE wrong_header_price 40 = Inr 0"
    by (simp_all add: wrong_header_price_def readUInt32LE_def readInt32LE_def
        readBigUInt64LE_def slice_def le_value_zeros)
  have slices:
    "slice wrong_header_price 48 80 = replicate 32 0"
    "slice wrong_header_price 80 112 = replicate 32 0"
    "slice wrong_header_price 112 144 = replicate 32 0"
    "slice wrong_header_price 144 176 = replicate 32 0"
    by (simp_all add: wrong_header_price_def slice_def)
  have info: "parsePriceInfo (replicate 32 0) 0 =
      Inr \<lparr> Price.priceComponent = 0, Price.price = Scaled 0 0,
            Price.confidenceComponent = 0, Price.confidence = Scaled 0 0,
            Price.status = 0, Price.corporateAction = 0, Price.publishSlot = 0 \<rparr>"
    by (simp add: parsePriceInfo_ok slice_def le_value_zeros)
  have loop: "price_loop wrong_header_price 0 176 True [] = Inr []"
    by (simp add: price_loop_end len)
  have "parsePriceData wrong_header_price =
     Inr \<lparr> magic = 0xa1b2c3d5, version = 2, type = 0, size = 0,
           priceType = 0, exponent = 0, numComponentPrices = 0,
           currentSlot = 0, validSlot = 0,
           productAccountKey = PublicKey (replicate 32 0),
           nextPriceAccountKey = None,
           aggregatePriceUpdaterAccountKey = PublicKey (replicate 32 0),
           priceComponent = 0, price = Scaled 0 0,
           confidenceComponent = 0, confidence = Scaled 0 0,
           status = 0, corporateAction = 0, publishSlot = 0,
           priceComponents = [] \<rparr>"
    unfolding parsePriceData_def reads slices thenE_Inr Let_def info loop
    by (simp add: PKorNull_def empty32Buffer_def)
  then show ?thesis
    by (simp add: Magic_def Version_def Version1_def)
qed

end
